theory Spec2Isabelle
  imports Main
begin

section \<open>Values\<close>

text \<open>
  JavaScript values as they reach the flattener from the parsed document. An object is
  the list of its own enumerable properties in iteration order; keys are distinct.
\<close>

datatype jsval =
    JUndefined
  | JNull
  | JBool bool
  | JNum int
  | JStr string
  | JArr "jsval list"
  | JObj "(string \<times> jsval) list"

type_synonym jsobj = "(string \<times> jsval) list"

text \<open>\<open>o[k]\<close> on an object: the value bound to \<open>k\<close>, \<open>undefined\<close> when there is none.\<close>

definition obj_get :: "jsobj \<Rightarrow> string \<Rightarrow> jsval" where
  "obj_get ob k = (case map_of ob k of None \<Rightarrow> JUndefined | Some v \<Rightarrow> v)"

text \<open>
  \<open>o[k] = v\<close>: an existing property keeps its place and takes the new value, a new
  property goes to the end. (JavaScript lists keys that are array indices first;
  nothing below depends on where such a key stands.)
\<close>

fun obj_set :: "(string \<times> 'v) list \<Rightarrow> string \<Rightarrow> 'v \<Rightarrow> (string \<times> 'v) list" where
  "obj_set [] k v = [(k, v)]"
| "obj_set ((k', v') # ob) k v =
     (if k' = k then (k, v) # ob else (k', v') # obj_set ob k v)"

text \<open>
  The functions of the JavaScript runtime and of lodash that \<open>main.js\<close> calls but does
  not define. \<open>JSON_parse x\<close> is \<open>None\<close> when \<open>JSON.parse(x)\<close> throws;
  \<open>JSON_stringify x n\<close> is \<open>JSON.stringify(x, null, n)\<close>; \<open>lodash_set ob p v\<close> is the
  object \<open>ob\<close> after \<open>_.set(ob, p, v)\<close>.
\<close>

record lib =
  JSON_parse :: "jsval \<Rightarrow> jsval option"
  JSON_stringify :: "jsval \<Rightarrow> nat \<Rightarrow> jsval"
  lodash_set :: "jsobj \<Rightarrow> string \<Rightarrow> jsval \<Rightarrow> jsobj"

datatype error = UnsupportedParameterType string

section \<open>Pretty printing of examples\<close>

definition JSON_INDENT_SIZE :: nat where
  "JSON_INDENT_SIZE = 2"

definition prettyJson :: "lib \<Rightarrow> jsval \<Rightarrow> jsval" where
  "prettyJson L x = JSON_stringify L x JSON_INDENT_SIZE"

definition tryPrettyJson :: "lib \<Rightarrow> jsval \<Rightarrow> jsval" where
  "tryPrettyJson L x =
     (case JSON_parse L x of
        Some parsed \<Rightarrow> prettyJson L parsed
      | None \<Rightarrow> x)"

section \<open>Methods\<close>

text \<open>
  A parameter descriptor, over the type of its example value. \<open>p_example\<close> is
  \<open>None\<close> when the descriptor has no \<open>example\<close> property (\<open>'example' in v\<close> is
  false).
\<close>

record 'v param =
  displayName :: string
  p_type :: string
  p_example :: "'v option"

text \<open>
  A method as declared on a resource. \<open>body\<close> is \<open>None\<close> when the method has no body;
  otherwise it maps content types to schema objects. \<open>params\<close> is \<open>None\<close> when absent.
  \<open>m_method\<close> is the property \<open>method\<close>, the verb.
  \<open>responses\<close> maps status codes to body variants to content types to schema objects,
  each level in iteration order. \<open>m_other\<close> holds the remaining properties.
\<close>

record meth =
  m_method :: string
  body :: "(string \<times> jsobj) list option"
  params :: "jsval param list option"
  responses :: "(string \<times> (string \<times> (string \<times> jsobj) list) list) list"
  m_other :: jsobj

text \<open>
  The flattened method: the copied properties, with \<open>requestExamples\<close> added
  (\<open>None\<close> is \<open>undefined\<close>) and \<open>responses\<close> replaced by the list of summaries.
\<close>

record flatMethod =
  fm_method :: string
  fm_body :: "(string \<times> jsobj) list option"
  fm_params :: "jsval param list option"
  fm_other :: jsobj
  requestExamples :: "jsval list option"
  fm_responses :: "jsobj list"

definition makeExampleFromType :: "string \<Rightarrow> string \<Rightarrow> error + jsval" where
  "makeExampleFromType t name =
     (if t = ''string'' then Inr (JStr (''EXAMPLE: '' @ name))
      else if t = ''number'' then Inr (JNum 1234567890)
      else Inl (UnsupportedParameterType t))"

text \<open>One step of the reduction over \<open>params\<close> in \<open>makeExamplesOf\<close>.\<close>

definition param_step :: "lib \<Rightarrow> jsobj \<Rightarrow> jsval param \<Rightarrow> error + jsobj" where
  "param_step L ob v =
     (case (case p_example v of
              Some e \<Rightarrow> Inr e
            | None \<Rightarrow> makeExampleFromType (p_type v) (displayName v)) of
        Inl e \<Rightarrow> Inl e
      | Inr example \<Rightarrow> Inr (lodash_set L ob (displayName v) example))"

text \<open>\<open>_.reduce\<close> over the parameters, left to right; a throw ends it.\<close>

fun reduce_params :: "lib \<Rightarrow> jsobj \<Rightarrow> jsval param list \<Rightarrow> error + jsobj" where
  "reduce_params L ob [] = Inr ob"
| "reduce_params L ob (v # vs) =
     (case param_step L ob v of
        Inl e \<Rightarrow> Inl e
      | Inr ob' \<Rightarrow> reduce_params L ob' vs)"

definition makeExamplesOf :: "lib \<Rightarrow> meth \<Rightarrow> error + jsval list option" where
  "makeExamplesOf L obj =
     (case body obj of
        Some b \<Rightarrow>
          Inr (Some (map (tryPrettyJson L) (map (\<lambda>s. obj_get s ''example'') (map snd b))))
      | None \<Rightarrow>
          (case reduce_params L [] (case params obj of None \<Rightarrow> [] | Some l \<Rightarrow> l) of
             Inl e \<Rightarrow> Inl e
           | Inr ob \<Rightarrow> Inr (if length (map fst ob) > 0 then Some [JObj ob] else None)))"

text \<open>
  The three assignments made for one content-type schema of a response, and the two
  nested \<open>_.forEach\<close> loops around them.
\<close>

definition resp_assign :: "string \<Rightarrow> string \<Rightarrow> jsobj \<Rightarrow> jsobj \<Rightarrow> jsobj" where
  "resp_assign methodName code ob objForRespType =
     obj_set (obj_set (obj_set ob ''example'' (obj_get objForRespType ''example''))
                ''code'' (JStr code))
       ''method'' (JStr methodName)"

definition resp_body :: "string \<Rightarrow> string \<Rightarrow> jsobj \<Rightarrow> (string \<times> jsobj) list \<Rightarrow> jsobj" where
  "resp_body methodName code ob objForBody =
     foldl (resp_assign methodName code) ob (map snd objForBody)"

definition resp_code :: "string \<Rightarrow> string \<times> (string \<times> (string \<times> jsobj) list) list \<Rightarrow> jsobj" where
  "resp_code methodName cr =
     foldl (resp_body methodName (fst cr)) [] (map snd (snd cr))"

definition flattenMethod :: "lib \<Rightarrow> meth \<Rightarrow> error + flatMethod" where
  "flattenMethod L objForMethod =
     (case makeExamplesOf L objForMethod of
        Inl e \<Rightarrow> Inl e
      | Inr ex \<Rightarrow>
          Inr \<lparr> fm_method = m_method objForMethod,
                fm_body = body objForMethod,
                fm_params = params objForMethod,
                fm_other = m_other objForMethod,
                requestExamples = ex,
                fm_responses = map (resp_code (m_method objForMethod)) (responses objForMethod) \<rparr>)"

text \<open>\<open>_.map\<close> over the methods, in order; the first throw ends it.\<close>

fun flattenMethods :: "lib \<Rightarrow> meth list \<Rightarrow> error + flatMethod list" where
  "flattenMethods L [] = Inr []"
| "flattenMethods L (m # ms) =
     (case flattenMethod L m of
        Inl e \<Rightarrow> Inl e
      | Inr fm \<Rightarrow>
          (case flattenMethods L ms of
             Inl e \<Rightarrow> Inl e
           | Inr fms \<Rightarrow> Inr (fm # fms)))"

section \<open>Resources\<close>

text \<open>
  A node of the resource tree. \<open>relativeUri\<close> is \<open>None\<close> when the node has no such
  property (the document root); a child of \<open>resources\<close> is \<open>None\<close> when it is
  \<open>null\<close>; an absent \<open>resources\<close> or \<open>methods\<close> is the empty list, over which
  \<open>_.forEach\<close> and \<open>_.map\<close> do nothing as well. \<open>r_other\<close> holds the remaining
  properties.
\<close>

datatype resource =
  Resource (relativeUri: "string option") (methods: "meth list")
    (resources: "resource option list") (r_other: jsobj)

text \<open>
  The flattened record: the copy of the node without \<open>resources\<close>, with \<open>methods\<close>
  replaced and \<open>basePath\<close> and \<open>path\<close> added.
\<close>

record flatResource =
  fr_relativeUri :: "string option"
  fr_other :: jsobj
  fr_methods :: "flatMethod list"
  basePath :: string
  path :: "string option"

text \<open>\<open>Array.prototype.join\<close> writes an \<open>undefined\<close> element as the empty string.\<close>

definition join_str :: "string option \<Rightarrow> string" where
  "join_str u = (case u of None \<Rightarrow> [] | Some s \<Rightarrow> s)"

definition pluck_join :: "resource list \<Rightarrow> string" where
  "pluck_join parents = concat (map (\<lambda>p. join_str (relativeUri p)) parents)"

text \<open>
  The inner function \<open>recur\<close>; the array \<open>xs\<close> it pushes to is passed in and
  returned. \<open>forEach_recur\<close> is the \<open>_.forEach\<close> over the children.
\<close>

fun recur :: "lib \<Rightarrow> resource list \<Rightarrow> resource option \<Rightarrow> flatResource list
                \<Rightarrow> error + flatResource list"
and forEach_recur :: "lib \<Rightarrow> resource list \<Rightarrow> resource option list \<Rightarrow> flatResource list
                \<Rightarrow> error + flatResource list" where
  "recur L parents None xs = Inr xs"
| "recur L parents (Some (Resource uri ms rs other)) xs =
     (case flattenMethods L ms of
        Inl e \<Rightarrow> Inl e
      | Inr fms \<Rightarrow>
          forEach_recur L (parents @ [Resource uri ms rs other]) rs
            (xs @ [\<lparr> fr_relativeUri = uri, fr_other = other, fr_methods = fms,
                      basePath = pluck_join parents, path = uri \<rparr>]))"
| "forEach_recur L newParents [] xs = Inr xs"
| "forEach_recur L newParents (r # rs) xs =
     (case recur L newParents r xs of
        Inl e \<Rightarrow> Inl e
      | Inr xs' \<Rightarrow> forEach_recur L newParents rs xs')"

definition flattenResources :: "lib \<Rightarrow> resource option \<Rightarrow> 'traits \<Rightarrow> error + flatResource list" where
  "flattenResources L res traits = recur L [] res []"

section \<open>Traits and the entry point\<close>

text \<open>
  One step of the reduction in \<open>traitsToObject\<close>: \<open>Object.keys(obj)[0]\<close> is the first
  key of \<open>obj\<close>, and \<open>undefined\<close> (as a property name, the string \<open>undefined\<close>) when
  \<open>obj\<close> has no key. The result is read by name only, so it is a map of its own
  properties. The assignment \<open>acc[key] = obj[key]\<close> with the key \<open>__proto__\<close> creates no
  property: on the plain object \<open>acc\<close> it sets the prototype when the value is an
  object or \<open>null\<close>, and does nothing otherwise.
\<close>

definition trait_step :: "(string \<rightharpoonup> jsval) \<Rightarrow> jsobj \<Rightarrow> (string \<rightharpoonup> jsval)" where
  "trait_step acc obj =
     (let key = (case map fst obj of [] \<Rightarrow> ''undefined'' | k # _ \<Rightarrow> k)
      in if key = ''__proto__'' then acc else acc(key \<mapsto> obj_get obj key))"

definition traitsToObject :: "jsobj list \<Rightarrow> (string \<rightharpoonup> jsval)" where
  "traitsToObject traits = foldl trait_step Map.empty traits"

text \<open>
  The document root is a resource node that also carries \<open>title\<close> and \<open>traits\<close>;
  \<open>traits\<close> is the empty list when absent, over which \<open>_.reduce\<close> returns its seed.
\<close>

record document =
  title :: jsval
  traits :: "jsobj list"
  root :: resource

record flatModel =
  fl_title :: jsval
  fl_traits :: "string \<rightharpoonup> jsval"
  fl_resources :: "flatResource list"

definition flattenHierarchy :: "lib \<Rightarrow> document \<Rightarrow> error + flatModel" where
  "flattenHierarchy L d =
     (case flattenResources L (Some (root d)) (traits d) of
        Inl e \<Rightarrow> Inl e
      | Inr rs \<Rightarrow>
          Inr \<lparr> fl_title = title d, fl_traits = traitsToObject (traits d), fl_resources = rs \<rparr>)"

section \<open>Nodes of a tree, by position\<close>

text \<open>
  A position is the list of child indices leading from the root to a node.
  \<open>node_at t pos\<close> is the node there (\<open>None\<close> when the position leaves the tree or
  meets a \<open>null\<close> child) and \<open>ancestors_at t pos\<close> the nodes passed on the way, root
  first, the node itself excluded.
\<close>

fun node_at :: "resource \<Rightarrow> nat list \<Rightarrow> resource option" where
  "node_at t [] = Some t"
| "node_at t (i # pos) =
     (if i < length (resources t)
      then (case resources t ! i of None \<Rightarrow> None | Some c \<Rightarrow> node_at c pos)
      else None)"

fun ancestors_at :: "resource \<Rightarrow> nat list \<Rightarrow> resource list" where
  "ancestors_at t [] = []"
| "ancestors_at t (i # pos) =
     t # (if i < length (resources t)
          then (case resources t ! i of None \<Rightarrow> [] | Some c \<Rightarrow> ancestors_at c pos)
          else [])"

text \<open>The number of nodes of a tree; a \<open>null\<close> child is no node.\<close>

fun count_nodes :: "resource \<Rightarrow> nat" where
  "count_nodes (Resource uri ms rs other) =
     Suc (sum_list (map (\<lambda>r. case r of None \<Rightarrow> 0 | Some c \<Rightarrow> count_nodes c) rs))"

definition count_opt :: "resource option \<Rightarrow> nat" where
  "count_opt r = (case r of None \<Rightarrow> 0 | Some c \<Rightarrow> count_nodes c)"

text \<open>
  The pre-order number of the node at a position: the root is 0, and the node below
  child \<open>i\<close> comes after the parent and after every node of the children before \<open>i\<close>.
\<close>

fun flat_index :: "resource \<Rightarrow> nat list \<Rightarrow> nat" where
  "flat_index t [] = 0"
| "flat_index t (i # pos) =
     Suc (sum_list (map count_opt (take i (resources t)))
          + (case resources t ! i of None \<Rightarrow> 0 | Some c \<Rightarrow> flat_index c pos))"


text \<open>The record pushed for a node whose methods flatten to \<open>fms\<close>.\<close>

definition clean_record :: "resource list \<Rightarrow> resource \<Rightarrow> flatMethod list \<Rightarrow> flatResource" where
  "clean_record parents n fms =
     \<lparr> fr_relativeUri = relativeUri n, fr_other = r_other n, fr_methods = fms,
       basePath = pluck_join parents, path = relativeUri n \<rparr>"


text \<open>
  The nodes of a tree in the order of a pre-order walk, each with the ancestor chain the
  walk holds when it reaches the node.
\<close>

fun nodes_pre :: "resource list \<Rightarrow> resource \<Rightarrow> (resource list \<times> resource) list" where
  "nodes_pre ps (Resource uri ms rs other) =
     (ps, Resource uri ms rs other) #
     concat (map (\<lambda>r. case r of None \<Rightarrow> [] | Some c \<Rightarrow> nodes_pre (ps @ [Resource uri ms rs other]) c) rs)"

text \<open>The same for a child that may be \<open>null\<close>.\<close>

definition nodes_opt :: "resource list \<Rightarrow> resource option \<Rightarrow> (resource list \<times> resource) list" where
  "nodes_opt ps r = (case r of None \<Rightarrow> [] | Some c \<Rightarrow> nodes_pre ps c)"

text \<open>\<open>rec\<close> is the record that the walk pushes for the node \<open>snd pn\<close> under the ancestors \<open>fst pn\<close>.\<close>

definition is_record :: "lib \<Rightarrow> flatResource \<Rightarrow> resource list \<times> resource \<Rightarrow> bool" where
  "is_record L rec pn =
     (case flattenMethods L (methods (snd pn)) of
        Inl e \<Rightarrow> False
      | Inr fms \<Rightarrow> rec = clean_record (fst pn) (snd pn) fms)"

section \<open>A small document\<close>

text \<open>
  Stand-ins for the library functions on the inputs used below: the only text that
  parses is \<open>[1]\<close>, printed with indent 2 on three lines, and \<open>_.set\<close> with a plain
  property name is an assignment.
\<close>

definition demo_lib :: lib where
  "demo_lib =
     \<lparr> JSON_parse = (\<lambda>x. if x = JStr ''[1]'' then Some (JArr [JNum 1]) else None),
       JSON_stringify =
         (\<lambda>x n. if x = JArr [JNum 1] \<and> n = 2 then JStr ''[\<newline>  1\<newline>]'' else JUndefined),
       lodash_set = obj_set \<rparr>"

definition demo_method :: meth where
  "demo_method =
     \<lparr> m_method = ''get'', body = None,
       params = Some [\<lparr> displayName = ''x'', p_type = ''string'', p_example = None \<rparr>],
       responses = [(''200'', [(''body'', [(''text/plain'', [(''example'', JStr ''ok'')])])])],
       m_other = [] \<rparr>"

definition demo_leaf :: resource where
  "demo_leaf = Resource (Some ''/d'') [] [] []"

definition demo_child :: resource where
  "demo_child = Resource (Some ''/b'') [demo_method] [Some demo_leaf] []"

definition demo_sibling :: resource where
  "demo_sibling = Resource (Some ''/c'') [] [] [(''description'', JStr ''third'')]"

definition demo_tree :: resource where
  "demo_tree = Resource (Some ''/a'') [] [Some demo_child, None, Some demo_sibling] []"

definition demo_flat_method :: flatMethod where
  "demo_flat_method =
     \<lparr> fm_method = ''get'', fm_body = None,
       fm_params = Some [\<lparr> displayName = ''x'', p_type = ''string'', p_example = None \<rparr>],
       fm_other = [], requestExamples = Some [JObj [(''x'', JStr ''EXAMPLE: x'')]],
       fm_responses = [[(''example'', JStr ''ok''), (''code'', JStr ''200''),
                        (''method'', JStr ''get'')]] \<rparr>"

definition demo_records :: "flatResource list" where
  "demo_records =
     [\<lparr> fr_relativeUri = Some ''/a'', fr_other = [], fr_methods = [],
        basePath = [], path = Some ''/a'' \<rparr>,
      \<lparr> fr_relativeUri = Some ''/b'', fr_other = [], fr_methods = [demo_flat_method],
        basePath = ''/a'', path = Some ''/b'' \<rparr>,
      \<lparr> fr_relativeUri = Some ''/d'', fr_other = [], fr_methods = [],
        basePath = ''/a/b'', path = Some ''/d'' \<rparr>,
      \<lparr> fr_relativeUri = Some ''/c'', fr_other = [(''description'', JStr ''third'')],
        fr_methods = [], basePath = ''/a'', path = Some ''/c'' \<rparr>]"


definition demo_body_method :: meth where
  "demo_body_method =
     \<lparr> m_method = ''post'',
       body = Some [(''application/json'', [(''example'', JStr ''[1]'')]),
                    (''text/plain'', [(''example'', JStr ''not json'')])],
       params = None, responses = [], m_other = [] \<rparr>"

definition demo_params :: "jsval param list" where
  "demo_params =
     [\<lparr> displayName = ''x'', p_type = ''string'', p_example = None \<rparr>,
      \<lparr> displayName = ''n'', p_type = ''number'', p_example = None \<rparr>,
      \<lparr> displayName = ''b'', p_type = ''boolean'', p_example = Some (JBool True) \<rparr>]"

definition demo_params_method :: meth where
  "demo_params_method =
     \<lparr> m_method = ''put'', body = None, params = Some demo_params, responses = [], m_other = [] \<rparr>"

definition demo_bad_params :: "jsval param list" where
  "demo_bad_params =
     [\<lparr> displayName = ''x'', p_type = ''string'', p_example = None \<rparr>,
      \<lparr> displayName = ''b'', p_type = ''boolean'', p_example = None \<rparr>]"

definition demo_bad_method :: meth where
  "demo_bad_method =
     \<lparr> m_method = ''put'', body = None, params = Some demo_bad_params, responses = [],
       m_other = [] \<rparr>"

definition demo_plain_method :: meth where
  "demo_plain_method =
     \<lparr> m_method = ''delete'', body = None, params = None, responses = [(''204'', [])],
       m_other = [] \<rparr>"

section \<open>What a parameter contributes\<close>

text \<open>
  The value a parameter contributes to the composite example when it has an example
  or a supported type, and the parameters for which synthesis fails.
\<close>

definition param_value :: "jsval param \<Rightarrow> jsval" where
  "param_value v =
     (case p_example v of
        Some e \<Rightarrow> e
      | None \<Rightarrow>
          if p_type v = ''string'' then JStr (''EXAMPLE: '' @ displayName v)
          else JNum 1234567890)"

definition unsupported :: "'v param \<Rightarrow> bool" where
  "unsupported v \<longleftrightarrow> p_example v = None \<and> p_type v \<noteq> ''string'' \<and> p_type v \<noteq> ''number''"

section \<open>What a response summary holds\<close>

text \<open>The summary written for one content-type schema of a status code.\<close>

definition summary :: "string \<Rightarrow> string \<Rightarrow> jsobj \<Rightarrow> jsobj" where
  "summary methodName code schema =
     [(''example'', obj_get schema ''example''), (''code'', JStr code),
      (''method'', JStr methodName)]"

section \<open>Objects in a store\<close>

text \<open>
  Where it matters which object a write goes to, objects live in a store: an address is
  an index into the list of objects, a value is a primitive or a reference, and a new
  object takes the next free address. Own properties only: a primitive has none.
\<close>

datatype sval = SUndefined | SNull | SBool bool | SNum int | SStr string | SRef nat

type_synonym sobj = "(string \<times> sval) list"

type_synonym store = "sobj list"

definition isNullish :: "sval \<Rightarrow> bool" where
  "isNullish v \<longleftrightarrow> v = SUndefined \<or> v = SNull"

definition st_get :: "store \<Rightarrow> sval \<Rightarrow> string \<Rightarrow> sval" where
  "st_get st x k =
     (case x of
        SRef a \<Rightarrow>
          (if a < length st
           then (case map_of (st ! a) k of None \<Rightarrow> SUndefined | Some v \<Rightarrow> v)
           else SUndefined)
      | _ \<Rightarrow> SUndefined)"

definition st_has :: "store \<Rightarrow> sval \<Rightarrow> string \<Rightarrow> bool" where
  "st_has st x k =
     (case x of SRef a \<Rightarrow> a < length st \<and> k \<in> set (map fst (st ! a)) | _ \<Rightarrow> False)"

definition st_put :: "store \<Rightarrow> nat \<Rightarrow> string \<Rightarrow> sval \<Rightarrow> store" where
  "st_put st a k v = (if a < length st then st[a := obj_set (st ! a) k v] else st)"

definition st_new :: "store \<Rightarrow> nat \<times> store" where
  "st_new st = (length st, st @ [[]])"

text \<open>
  The property path of a name without brackets, as lodash's \<open>toPath\<close> gives it: the
  maximal runs of characters other than the dot.
\<close>

fun segments :: "string \<Rightarrow> string \<Rightarrow> string list" where
  "segments cur [] = (if cur = [] then [] else [cur])"
| "segments cur (c # cs) =
     (if c = CHR ''.''
      then (if cur = [] then segments [] cs else cur # segments [] cs)
      else segments (cur @ [c]) cs)"

definition toPath :: "string \<Rightarrow> string list" where
  "toPath p = segments [] p"

text \<open>
  The loop of lodash's \<open>_.set\<close> (version 3, the one that has both \<open>_.pluck\<close> and
  \<open>_.set\<close>): it walks the path from \<open>nested\<close>, stores a new object where a step on the
  way is \<open>null\<close> or \<open>undefined\<close> (an array when the next key is an index; the store
  does not tell the two apart), follows the value that is there otherwise, and assigns
  at the last key when \<open>nested\<close> is an object. A primitive on the way ends the walk
  with nothing written.
\<close>

fun set_loop :: "store \<Rightarrow> sval \<Rightarrow> string list \<Rightarrow> sval \<Rightarrow> store" where
  "set_loop st nested [] v = st"
| "set_loop st nested [key] v =
     (case nested of SRef a \<Rightarrow> st_put st a key v | _ \<Rightarrow> st)"
| "set_loop st nested (key # next # rest) v =
     (case nested of
        SRef a \<Rightarrow>
          (if isNullish (st_get st nested key)
           then (let (b, st') = st_new st;
                     st'' = st_put st' a key (SRef b)
                 in set_loop st'' (SRef b) (next # rest) v)
           else set_loop st (st_get st nested key) (next # rest) v)
      | _ \<Rightarrow> st)"

text \<open>
  \<open>_.set(object, path, value)\<close>: the name is one key when the object has the property
  or the name has no dot, and a path otherwise.
\<close>

definition lodash_set_st :: "store \<Rightarrow> sval \<Rightarrow> string \<Rightarrow> sval \<Rightarrow> store" where
  "lodash_set_st st object p v =
     (if isNullish object then st
      else set_loop st object
             (if \<not> isNullish (st_get st object p) \<or> CHR ''.'' \<notin> set p \<or> st_has st object p
              then [p] else toPath p)
             v)"

text \<open>
  The parameter branch of \<open>makeExamplesOf\<close> on the store, for parameters whose
  example may be a reference to an object of the document: the accumulator is a new
  object, and the result is its address, or \<open>None\<close> for \<open>undefined\<close>.
\<close>

fun sval_of :: "jsval \<Rightarrow> sval" where
  "sval_of (JStr s) = SStr s"
| "sval_of (JNum n) = SNum n"
| "sval_of (JBool b) = SBool b"
| "sval_of JNull = SNull"
| "sval_of _ = SUndefined"

definition param_step_st :: "store \<Rightarrow> nat \<Rightarrow> sval param \<Rightarrow> error + store" where
  "param_step_st st ob v =
     (case (case p_example v of
              Some e \<Rightarrow> Inr e
            | None \<Rightarrow>
                (case makeExampleFromType (p_type v) (displayName v) of
                   Inl e \<Rightarrow> Inl e
                 | Inr x \<Rightarrow> Inr (sval_of x))) of
        Inl e \<Rightarrow> Inl e
      | Inr example \<Rightarrow> Inr (lodash_set_st st (SRef ob) (displayName v) example))"

fun reduce_params_st :: "store \<Rightarrow> nat \<Rightarrow> sval param list \<Rightarrow> error + store" where
  "reduce_params_st st ob [] = Inr st"
| "reduce_params_st st ob (v # vs) =
     (case param_step_st st ob v of
        Inl e \<Rightarrow> Inl e
      | Inr st' \<Rightarrow> reduce_params_st st' ob vs)"

definition makeExamplesOf_st :: "store \<Rightarrow> sval param list \<Rightarrow> error + store \<times> nat option" where
  "makeExamplesOf_st st ps =
     (let (ob, st1) = st_new st
      in case reduce_params_st st1 ob ps of
           Inl e \<Rightarrow> Inl e
         | Inr st2 \<Rightarrow> Inr (st2, if length (map fst (st2 ! ob)) > 0 then Some ob else None))"

text \<open>
  A document in which the example of the parameter \<open>user\<close> is the object at address 0,
  and a second parameter is named \<open>user.id\<close>.
\<close>

definition demo_store :: store where
  "demo_store = [[(''name'', SStr ''x'')]]"

definition demo_alias_params :: "sval param list" where
  "demo_alias_params =
     [\<lparr> displayName = ''user'', p_type = ''object'', p_example = Some (SRef 0) \<rparr>,
      \<lparr> displayName = ''user.id'', p_type = ''number'', p_example = None \<rparr>]"

text \<open>
  From address \<open>n\<close> on, the objects of the store refer only to objects from \<open>n\<close> on.
\<close>

definition closed_above :: "nat \<Rightarrow> store \<Rightarrow> bool" where
  "closed_above n st \<longleftrightarrow>
     n \<le> length st \<and>
     (\<forall>a k b. n \<le> a \<and> a < length st \<and> map_of (st ! a) k = Some (SRef b)
        \<longrightarrow> n \<le> b \<and> b < length st)"

section \<open>The walk visits the nodes in pre-order\<close>

lemma nodes_opt_fun: "nodes_opt ps = (\<lambda>r. case r of None \<Rightarrow> [] | Some c \<Rightarrow> nodes_pre ps c)"
  by (rule ext) (simp add: nodes_opt_def)

lemma nodes_opt_simps [simp]: "nodes_opt ps None = []" "nodes_opt ps (Some c) = nodes_pre ps c"
  by (simp_all add: nodes_opt_def)

lemma nodes_pre_eq:
  "nodes_pre ps t = (ps, t) # concat (map (nodes_opt (ps @ [t])) (resources t))"
  by (cases t) (simp add: nodes_opt_fun)

declare nodes_pre.simps [simp del]

lemma recur_forEach_Inr:
  "(recur L ps r xs = Inr out \<longrightarrow>
      (\<exists>recs. out = xs @ recs \<and> list_all2 (is_record L) recs (nodes_opt ps r)))"
  "(forEach_recur L ps rs xs = Inr out \<longrightarrow>
      (\<exists>recs. out = xs @ recs \<and> list_all2 (is_record L) recs (concat (map (nodes_opt ps) rs))))"
proof (induction L ps r xs and L ps rs xs arbitrary: out and out rule: recur_forEach_recur.induct)
  case (1 L parents xs)
  then show ?case by simp
next
  case (2 L parents uri ms rs other xs)
  let ?t = "Resource uri ms rs other"
  show ?case
  proof
    assume a: "recur L parents (Some ?t) xs = Inr out"
    then obtain fms where fms: "flattenMethods L ms = Inr fms"
      by (auto split: sum.splits)
    let ?c = "clean_record parents ?t fms"
    from a fms have b: "forEach_recur L (parents @ [?t]) rs (xs @ [?c]) = Inr out"
      by (simp add: clean_record_def)
    from 2[OF fms] b obtain recs where
      r: "out = (xs @ [?c]) @ recs"
         "list_all2 (is_record L) recs (concat (map (nodes_opt (parents @ [?t])) rs))"
      by (auto simp: clean_record_def)
    have "is_record L ?c (parents, ?t)"
      by (simp add: is_record_def fms)
    with r have "out = xs @ (?c # recs) \<and> list_all2 (is_record L) (?c # recs) (nodes_opt parents (Some ?t))"
      by (simp add: nodes_pre_eq)
    then show "\<exists>recs. out = xs @ recs \<and> list_all2 (is_record L) recs (nodes_opt parents (Some ?t))"
      by blast
  qed
next
  case (3 L newParents xs)
  then show ?case by simp
next
  case (4 L newParents r rs xs)
  show ?case
  proof
    assume a: "forEach_recur L newParents (r # rs) xs = Inr out"
    then obtain xs' where x: "recur L newParents r xs = Inr xs'"
      and y: "forEach_recur L newParents rs xs' = Inr out"
      by (auto split: sum.splits)
    from 4(1) x obtain r1 where r1: "xs' = xs @ r1" "list_all2 (is_record L) r1 (nodes_opt newParents r)"
      by blast
    from 4(2)[OF x] y obtain r2 where r2: "out = xs' @ r2"
       "list_all2 (is_record L) r2 (concat (map (nodes_opt newParents) rs))"
      by blast
    from r1 r2 have "out = xs @ (r1 @ r2) \<and>
        list_all2 (is_record L) (r1 @ r2) (concat (map (nodes_opt newParents) (r # rs)))"
      by (simp add: list_all2_appendI)
    then show "\<exists>recs. out = xs @ recs \<and>
        list_all2 (is_record L) recs (concat (map (nodes_opt newParents) (r # rs)))"
      by blast
  qed
qed

lemma length_nodes_pre: "length (nodes_pre ps t) = count_nodes t"
proof (induction t arbitrary: ps)
  case (Resource uri ms rs other)
  have "map length (map (nodes_opt (ps @ [Resource uri ms rs other])) rs)
        = map (\<lambda>r. case r of None \<Rightarrow> 0 | Some c \<Rightarrow> count_nodes c) rs"
    unfolding map_map
    by (rule map_cong[OF refl]) (auto simp: Resource.IH split: option.splits)
  then have e: "sum_list (map length (map (nodes_opt (ps @ [Resource uri ms rs other])) rs))
        = sum_list (map (\<lambda>r. case r of None \<Rightarrow> 0 | Some c \<Rightarrow> count_nodes c) rs)"
    by (rule arg_cong)
  show ?case
    by (simp only: nodes_pre_eq resource.sel list.size length_concat e count_nodes.simps)
qed

lemma length_nodes_opt: "length (nodes_opt ps r) = count_opt r"
  by (cases r) (simp_all add: count_opt_def length_nodes_pre)

lemma nth_concat_offset:
  "i < length xss \<Longrightarrow> k < length (xss ! i) \<Longrightarrow>
   sum_list (map length (take i xss)) + k < length (concat xss) \<and>
   concat xss ! (sum_list (map length (take i xss)) + k) = xss ! i ! k"
proof (induction xss arbitrary: i)
  case Nil
  then show ?case by simp
next
  case (Cons xs xss)
  show ?case
  proof (cases i)
    case 0
    with Cons.prems show ?thesis by (simp add: nth_append)
  next
    case (Suc j)
    with Cons.prems Cons.IH[of j] show ?thesis by (simp add: nth_append)
  qed
qed

lemma nodes_pre_at:
  "node_at t pos = Some n \<Longrightarrow>
   flat_index t pos < length (nodes_pre ps t) \<and>
   nodes_pre ps t ! flat_index t pos = (ps @ ancestors_at t pos, n)"
proof (induction pos arbitrary: t ps)
  case Nil
  then show ?case by (simp add: nodes_pre_eq)
next
  case (Cons i pos)
  from Cons.prems obtain c where i: "i < length (resources t)"
    and c: "resources t ! i = Some c" and n: "node_at c pos = Some n"
    by (auto split: if_splits option.splits)
  let ?xss = "map (nodes_opt (ps @ [t])) (resources t)"
  have len: "map length (take i ?xss) = map count_opt (take i (resources t))"
    by (simp add: take_map length_nodes_opt comp_def)
  from Cons.IH[OF n, of "ps @ [t]"]
  have k: "flat_index c pos < length (nodes_pre (ps @ [t]) c)"
    and v: "nodes_pre (ps @ [t]) c ! flat_index c pos = ((ps @ [t]) @ ancestors_at c pos, n)"
    by simp_all
  have xi: "?xss ! i = nodes_pre (ps @ [t]) c"
    using i c by simp
  from nth_concat_offset[of i ?xss "flat_index c pos"] i k xi
  have "sum_list (map length (take i ?xss)) + flat_index c pos < length (concat ?xss)"
    and "concat ?xss ! (sum_list (map length (take i ?xss)) + flat_index c pos)
         = nodes_pre (ps @ [t]) c ! flat_index c pos"
    by simp_all
  with len v i c show ?case
    by (simp add: nodes_pre_eq[of ps t])
qed






section \<open>The flattened resource list\<close>

lemma flatten_at:
  assumes "flattenResources L (Some t) tr = Inr out"
  shows "length out = count_nodes t"
    and "node_at t pos = Some n \<Longrightarrow>
         flat_index t pos < length out \<and>
         is_record L (out ! flat_index t pos) (ancestors_at t pos, n)"
proof -
  from assms recur_forEach_Inr(1)[of L "[]" "Some t" "[]" out]
  have a: "list_all2 (is_record L) out (nodes_pre [] t)"
    by (simp add: flattenResources_def)
  then have len: "length out = length (nodes_pre [] t)"
    by (rule list_all2_lengthD)
  then show "length out = count_nodes t"
    by (simp add: length_nodes_pre)
  assume n: "node_at t pos = Some n"
  from nodes_pre_at[OF n, of "[]"] len
  have i: "flat_index t pos < length out"
    and v: "nodes_pre [] t ! flat_index t pos = (ancestors_at t pos, n)"
    by simp_all
  from list_all2_nthD[OF a i] v
  show "flat_index t pos < length out \<and>
         is_record L (out ! flat_index t pos) (ancestors_at t pos, n)"
    using i by simp
qed

text \<open>The walk fails only when the methods of some node fail to flatten.\<close>

lemma recur_forEach_returns:
  "(\<forall>pn\<in>set (nodes_opt ps r). \<exists>fms. flattenMethods L (methods (snd pn)) = Inr fms) \<longrightarrow>
     (\<exists>out. recur L ps r xs = Inr out)"
  "(\<forall>pn\<in>set (concat (map (nodes_opt ps) rs)). \<exists>fms. flattenMethods L (methods (snd pn)) = Inr fms) \<longrightarrow>
     (\<exists>out. forEach_recur L ps rs xs = Inr out)"
proof (induction L ps r xs and L ps rs xs rule: recur_forEach_recur.induct)
  case (1 L parents xs)
  show ?case by simp
next
  case (2 L parents uri ms rs other xs)
  let ?t = "Resource uri ms rs other"
  show ?case
  proof
    assume a: "\<forall>pn\<in>set (nodes_opt parents (Some ?t)). \<exists>fms. flattenMethods L (methods (snd pn)) = Inr fms"
    then obtain fms where fms: "flattenMethods L ms = Inr fms"
      by (auto simp: nodes_pre_eq)
    from a have "\<forall>pn\<in>set (concat (map (nodes_opt (parents @ [?t])) rs)).
        \<exists>fms. flattenMethods L (methods (snd pn)) = Inr fms"
      by (simp add: nodes_pre_eq)
    with 2[OF fms] obtain out where
      "forEach_recur L (parents @ [?t]) rs
         (xs @ [\<lparr>fr_relativeUri = uri, fr_other = other, fr_methods = fms,
                 basePath = pluck_join parents, path = uri\<rparr>]) = Inr out"
      by blast
    with fms show "\<exists>out. recur L parents (Some ?t) xs = Inr out"
      by simp
  qed
next
  case (3 L newParents xs)
  show ?case by simp
next
  case (4 L newParents r rs xs)
  show ?case
  proof
    assume a: "\<forall>pn\<in>set (concat (map (nodes_opt newParents) (r # rs))).
       \<exists>fms. flattenMethods L (methods (snd pn)) = Inr fms"
    then have "\<forall>pn\<in>set (nodes_opt newParents r). \<exists>fms. flattenMethods L (methods (snd pn)) = Inr fms"
      by simp
    with 4(1) obtain xs' where x: "recur L newParents r xs = Inr xs'"
      by blast
    from a have "\<forall>pn\<in>set (concat (map (nodes_opt newParents) rs)).
       \<exists>fms. flattenMethods L (methods (snd pn)) = Inr fms"
      by simp
    with 4(2)[OF x] obtain out where "forEach_recur L newParents rs xs' = Inr out"
      by blast
    with x show "\<exists>out. forEach_recur L newParents (r # rs) xs = Inr out"
      by simp
  qed
qed

lemma nodes_pre_position:
  "pn \<in> set (nodes_pre ps t) \<Longrightarrow> \<exists>pos. node_at t pos = Some (snd pn)"
proof (induction t arbitrary: ps)
  case (Resource uri ms rs other)
  let ?t = "Resource uri ms rs other"
  from Resource.prems have "pn = (ps, ?t) \<or>
      (\<exists>r\<in>set rs. pn \<in> set (nodes_opt (ps @ [?t]) r))"
    by (auto simp: nodes_pre_eq)
  then show ?case
  proof
    assume "pn = (ps, ?t)"
    then have "node_at ?t [] = Some (snd pn)" by simp
    then show ?thesis by blast
  next
    assume "\<exists>r\<in>set rs. pn \<in> set (nodes_opt (ps @ [?t]) r)"
    then obtain r where r: "r \<in> set rs" "pn \<in> set (nodes_opt (ps @ [?t]) r)" by blast
    from r(2) obtain c where c: "r = Some c" "pn \<in> set (nodes_pre (ps @ [?t]) c)"
      by (cases r) auto
    from Resource.IH[of r c "ps @ [?t]"] r(1) c obtain pos where p: "node_at c pos = Some (snd pn)"
      by auto
    from r(1) c(1) obtain i where i: "i < length rs" "rs ! i = Some c"
      by (auto simp: in_set_conv_nth)
    with p have "node_at ?t (i # pos) = Some (snd pn)" by simp
    then show ?thesis by blast
  qed
qed

lemma flattenResources_returns:
  assumes "\<And>pos n. node_at t pos = Some n \<Longrightarrow> \<exists>fms. flattenMethods L (methods n) = Inr fms"
  shows "\<exists>out. flattenResources L (Some t) tr = Inr out"
proof -
  have "\<forall>pn\<in>set (nodes_opt [] (Some t)). \<exists>fms. flattenMethods L (methods (snd pn)) = Inr fms"
  proof
    fix pn assume "pn \<in> set (nodes_opt [] (Some t))"
    then have "pn \<in> set (nodes_pre [] t)" by simp
    from nodes_pre_position[OF this] obtain pos where "node_at t pos = Some (snd pn)" by blast
    then show "\<exists>fms. flattenMethods L (methods (snd pn)) = Inr fms" by (rule assms)
  qed
  with recur_forEach_returns(1)[of "[]" "Some t" L "[]"] show ?thesis
    by (simp add: flattenResources_def)
qed


lemma demo_flatMethod: "flattenMethod demo_lib demo_method = Inr demo_flat_method"
  by (simp add: demo_method_def demo_lib_def demo_flat_method_def
      flattenMethod_def makeExamplesOf_def param_step_def makeExampleFromType_def
      resp_code_def resp_body_def resp_assign_def obj_get_def)

lemma demo_flatten:
  "flattenResources demo_lib (Some demo_tree) () = Inr demo_records"
  by (simp add: flattenResources_def demo_tree_def demo_child_def demo_leaf_def
      demo_sibling_def demo_flatMethod pluck_join_def join_str_def demo_records_def)





text \<open>
  C2. The list the flattener returns has as many records as the tree has nodes, the
  root and all its descendants; a \<open>null\<close> child counts as no node, so for a tree
  without \<open>null\<close> children this is the number of all nodes. The flattener returns
  such a list whenever the methods of every node flatten without error.
\<close>

theorem flattenResources_length:
  "(flattenResources L (Some t) tr = Inr out \<longrightarrow> length out = count_nodes t) \<and>
   ((\<forall>pos n. node_at t pos = Some n \<longrightarrow> (\<exists>fms. flattenMethods L (methods n) = Inr fms)) \<longrightarrow>
      (\<exists>out. flattenResources L (Some t) tr = Inr out \<and> length out = count_nodes t))"
proof (intro conjI impI)
  assume "flattenResources L (Some t) tr = Inr out"
  then show "length out = count_nodes t" by (rule flatten_at(1))
next
  assume "\<forall>pos n. node_at t pos = Some n \<longrightarrow> (\<exists>fms. flattenMethods L (methods n) = Inr fms)"
  then have "\<exists>out. flattenResources L (Some t) tr = Inr out"
    by (intro flattenResources_returns) blast
  then obtain out' where o: "flattenResources L (Some t) tr = Inr out'" by blast
  then have "length out' = count_nodes t" by (rule flatten_at(1))
  with o show "\<exists>out. flattenResources L (Some t) tr = Inr out \<and> length out = count_nodes t"
    by blast
qed

theorem flattenResources_length_witness:
  "flattenResources demo_lib (Some demo_tree) () = Inr demo_records \<and>
   length demo_records = 4 \<and> count_nodes demo_tree = 4"
proof -
  from flattenResources_length[of demo_lib demo_tree "()" demo_records] demo_flatten
  have "length demo_records = count_nodes demo_tree" by blast
  moreover have "length demo_records = 4" by (simp add: demo_records_def)
  ultimately show ?thesis using demo_flatten by simp
qed



text \<open>
  C10. The flattened resource list does not depend on the \<open>traits\<close> argument: for any
  two values of it, \<open>flattenResources\<close> gives the same result on the same tree.
\<close>

theorem flattenResources_traits_unused:
  "flattenResources L res traits1 = flattenResources L res traits2"
  by (simp add: flattenResources_def)


section \<open>Traits\<close>






section \<open>Request examples\<close>

text \<open>
  C5. For a method with a body, \<open>makeExamplesOf\<close> returns without error one entry per
  content type, in order: the example parsed and printed again with indent 2 when it
  parses, and the example itself when parsing throws.
\<close>

theorem makeExamplesOf_body:
  "body m = Some b \<Longrightarrow>
   (\<exists>exs. makeExamplesOf L m = Inr (Some exs) \<and> length exs = length b \<and>
      (\<forall>i<length b.
         exs ! i =
           (case JSON_parse L (obj_get (snd (b ! i)) ''example'') of
              Some parsed \<Rightarrow> JSON_stringify L parsed 2
            | None \<Rightarrow> obj_get (snd (b ! i)) ''example'')))"
  by (simp add: makeExamplesOf_def tryPrettyJson_def prettyJson_def JSON_INDENT_SIZE_def
      cong: option.case_cong)

lemma param_step_ok:
  "\<not> unsupported v \<Longrightarrow> param_step L ob v = Inr (lodash_set L ob (displayName v) (param_value v))"
  by (auto simp: param_step_def unsupported_def param_value_def makeExampleFromType_def
      split: option.splits)

lemma param_step_bad:
  "unsupported v \<Longrightarrow> param_step L ob v = Inl (UnsupportedParameterType (p_type v))"
  by (auto simp: param_step_def unsupported_def makeExampleFromType_def split: option.splits)

lemma reduce_params_ok:
  "\<forall>v\<in>set ps. \<not> unsupported v \<Longrightarrow>
   reduce_params L ob ps =
     Inr (foldl (\<lambda>ob v. lodash_set L ob (displayName v) (param_value v)) ob ps)"
  by (induction ps arbitrary: ob) (simp_all add: param_step_ok)

lemma reduce_params_bad:
  "\<exists>v\<in>set ps. unsupported v \<Longrightarrow>
   \<exists>v\<in>set ps. unsupported v \<and> reduce_params L ob ps = Inl (UnsupportedParameterType (p_type v))"
proof (induction ps arbitrary: ob)
  case Nil
  then show ?case by simp
next
  case (Cons p ps)
  show ?case
  proof (cases "unsupported p")
    case True
    then show ?thesis by (simp add: param_step_bad)
  next
    case False
    with Cons.prems have "\<exists>v\<in>set ps. unsupported v" by simp
    from Cons.IH[OF this, of "lodash_set L ob (displayName p) (param_value p)"] False
    show ?thesis by (auto simp: param_step_ok)
  qed
qed

text \<open>
  C6. For a method without a body whose parameters are \<open>ps\<close>: when every parameter has
  an example or the type \<open>string\<close> or \<open>number\<close>, the result is the one composite object
  obtained by setting, parameter after parameter, the display name to the example, or
  else to \<open>EXAMPLE: \<close> followed by the display name for a \<open>string\<close>, or to 1234567890
  for a \<open>number\<close> (returned as a one-element list when it has a key); when some
  parameter has no example and another type, synthesis fails with
  \<open>UnsupportedParameterType\<close> for such a parameter.
\<close>

theorem makeExamplesOf_params:
  "body m = None \<Longrightarrow> params m = Some ps \<Longrightarrow>
   ((\<forall>v\<in>set ps. \<not> unsupported v) \<longrightarrow>
      makeExamplesOf L m =
        Inr (let ob = foldl (\<lambda>ob v. lodash_set L ob (displayName v) (param_value v)) [] ps
             in if ob \<noteq> [] then Some [JObj ob] else None)) \<and>
   ((\<exists>v\<in>set ps. unsupported v) \<longrightarrow>
      (\<exists>v\<in>set ps. unsupported v \<and>
         makeExamplesOf L m = Inl (UnsupportedParameterType (p_type v))))"
proof (intro conjI impI)
  assume b: "body m = None" and p: "params m = Some ps"
  { assume "\<forall>v\<in>set ps. \<not> unsupported v"
    from reduce_params_ok[OF this, of L "[]"] b p
    show "makeExamplesOf L m =
        Inr (let ob = foldl (\<lambda>ob v. lodash_set L ob (displayName v) (param_value v)) [] ps
             in if ob \<noteq> [] then Some [JObj ob] else None)"
      by (simp add: makeExamplesOf_def Let_def) }
  { assume "\<exists>v\<in>set ps. unsupported v"
    from reduce_params_bad[OF this, of L "[]"] b p
    show "\<exists>v\<in>set ps. unsupported v \<and>
         makeExamplesOf L m = Inl (UnsupportedParameterType (p_type v))"
      by (auto simp: makeExamplesOf_def) }
qed

text \<open>
  C7. For a method with no body and with \<open>params\<close> absent or empty, the
  \<open>requestExamples\<close> of the flattened method is undefined.
\<close>

theorem makeExamplesOf_absent:
  "body m = None \<Longrightarrow> params m = None \<or> params m = Some [] \<Longrightarrow>
   makeExamplesOf L m = Inr None \<and>
   (\<exists>fm. flattenMethod L m = Inr fm \<and> requestExamples fm = None)"
  by (auto simp: makeExamplesOf_def flattenMethod_def)

theorem makeExamplesOf_body_witness:
  "body demo_body_method = Some [(''application/json'', [(''example'', JStr ''[1]'')]),
                    (''text/plain'', [(''example'', JStr ''not json'')])] \<and>
   makeExamplesOf demo_lib demo_body_method =
     Inr (Some [JStr ''[\<newline>  1\<newline>]'', JStr ''not json''])"
proof -
  have b: "body demo_body_method = Some [(''application/json'', [(''example'', JStr ''[1]'')]),
                    (''text/plain'', [(''example'', JStr ''not json'')])]"
    by (simp add: demo_body_method_def)
  from makeExamplesOf_body[OF b, of demo_lib] obtain exs where
    e: "makeExamplesOf demo_lib demo_body_method = Inr (Some exs)" and l: "length exs = 2"
    and a: "\<forall>i<2. exs ! i =
           (case JSON_parse demo_lib (obj_get (snd ([(''application/json'', [(''example'', JStr ''[1]'')]),
                    (''text/plain'', [(''example'', JStr ''not json'')])] ! i)) ''example'') of
              Some parsed \<Rightarrow> JSON_stringify demo_lib parsed 2
            | None \<Rightarrow> obj_get (snd ([(''application/json'', [(''example'', JStr ''[1]'')]),
                    (''text/plain'', [(''example'', JStr ''not json'')])] ! i)) ''example'')"
    by auto
  from a have "exs ! 0 = JStr ''[\<newline>  1\<newline>]''" "exs ! 1 = JStr ''not json''"
    by (simp_all add: demo_lib_def obj_get_def)
  with l have "exs = [JStr ''[\<newline>  1\<newline>]'', JStr ''not json'']"
    by (cases exs; cases "tl exs") auto
  with e b show ?thesis by simp
qed

theorem makeExamplesOf_params_witness:
  "body demo_params_method = None \<and> params demo_params_method = Some demo_params \<and>
   list_all (\<lambda>v. \<not> unsupported v) demo_params \<and>
   makeExamplesOf demo_lib demo_params_method =
     Inr (Some [JObj [(''x'', JStr ''EXAMPLE: x''), (''n'', JNum 1234567890),
                      (''b'', JBool True)]]) \<and>
   body demo_bad_method = None \<and> params demo_bad_method = Some demo_bad_params \<and>
   (\<exists>v\<in>set demo_bad_params. unsupported v) \<and>
   makeExamplesOf demo_lib demo_bad_method = Inl (UnsupportedParameterType ''boolean'')"
proof -
  have b: "body demo_params_method = None" "params demo_params_method = Some demo_params"
    by (simp_all add: demo_params_method_def)
  have ok: "\<forall>v\<in>set demo_params. \<not> unsupported v"
    by (simp add: demo_params_def unsupported_def)
  from makeExamplesOf_params[OF b, of demo_lib] ok
  have 1: "makeExamplesOf demo_lib demo_params_method =
     Inr (Some [JObj [(''x'', JStr ''EXAMPLE: x''), (''n'', JNum 1234567890),
                      (''b'', JBool True)]])"
    by (simp add: demo_params_def demo_lib_def param_value_def)
  have c: "body demo_bad_method = None" "params demo_bad_method = Some demo_bad_params"
    by (simp_all add: demo_bad_method_def)
  have bad: "\<exists>v\<in>set demo_bad_params. unsupported v"
    by (simp add: demo_bad_params_def unsupported_def)
  from makeExamplesOf_params[OF c, of demo_lib] bad
  have 2: "makeExamplesOf demo_lib demo_bad_method = Inl (UnsupportedParameterType ''boolean'')"
    by (auto simp: demo_bad_params_def unsupported_def)
  from ok have "list_all (\<lambda>v. \<not> unsupported v) demo_params"
    by (simp add: list_all_iff)
  with b 1 c bad 2 show ?thesis by blast
qed

theorem makeExamplesOf_absent_witness:
  "body demo_plain_method = None \<and> params demo_plain_method = None \<and>
   makeExamplesOf demo_lib demo_plain_method = Inr None \<and>
   (\<exists>fm. flattenMethod demo_lib demo_plain_method = Inr fm \<and> requestExamples fm = None)"
proof -
  have b: "body demo_plain_method = None" and p: "params demo_plain_method = None"
    by (simp_all add: demo_plain_method_def)
  from makeExamplesOf_absent[OF b, of demo_lib] b p show ?thesis
    by simp
qed

section \<open>Response summaries\<close>

lemma resp_assign_empty: "resp_assign v c [] s = summary v c s"
  by (simp add: resp_assign_def summary_def)

lemma resp_assign_summary: "resp_assign v c (summary v c s') s = summary v c s"
  by (simp add: resp_assign_def summary_def)

lemma foldl_resp_assign:
  "ob = [] \<or> (\<exists>s. ob = summary v c s) \<Longrightarrow>
   foldl (resp_assign v c) ob ss = (if ss = [] then ob else summary v c (last ss))"
proof (induction ss arbitrary: ob)
  case Nil
  then show ?case by simp
next
  case (Cons s ss)
  from Cons.prems have "resp_assign v c ob s = summary v c s"
    by (auto simp: resp_assign_empty resp_assign_summary)
  moreover have "foldl (resp_assign v c) (summary v c s) ss
        = (if ss = [] then summary v c s else summary v c (last ss))"
    by (rule Cons.IH) blast
  ultimately show ?case
    by simp
qed

lemma resp_body_eq:
  "ob = [] \<or> (\<exists>s. ob = summary v c s) \<Longrightarrow>
   resp_body v c ob objForBody =
     (if objForBody = [] then ob else summary v c (snd (last objForBody)))"
  using foldl_resp_assign[of ob v c "map snd objForBody"]
  by (simp add: resp_body_def last_map)

lemma foldl_resp_body:
  "ob = [] \<or> (\<exists>s. ob = summary v c s) \<Longrightarrow>
   foldl (resp_body v c) ob bs =
     (if concat (map (map snd) bs) = [] then ob
      else summary v c (last (concat (map (map snd) bs))))"
proof (induction bs arbitrary: ob)
  case Nil
  then show ?case by simp
next
  case (Cons b bs)
  let ?ob' = "resp_body v c ob b"
  have e: "?ob' = (if b = [] then ob else summary v c (snd (last b)))"
    using Cons.prems by (rule resp_body_eq)
  with Cons.prems have "?ob' = [] \<or> (\<exists>s. ?ob' = summary v c s)"
    by auto
  from Cons.IH[OF this] e show ?case
    by (auto simp: last_map last_append)
qed

lemma resp_code_eq:
  "resp_code v (c, variants) =
     (let schemas = concat (map (\<lambda>variant. map snd (snd variant)) variants)
      in if schemas = [] then [] else summary v c (last schemas))"
  using foldl_resp_body[of "[]" v c "map snd variants"]
  by (simp add: resp_code_def comp_def Let_def)

lemma flattenMethod_responses:
  "flattenMethod L m = Inr fm \<Longrightarrow>
   fm_responses fm = map (resp_code (m_method m)) (responses m)"
  by (auto simp: flattenMethod_def split: sum.splits)

text \<open>
  C8. A method whose response for status code 204 declares no content type: the response
  list has one summary for the code, and that summary is the empty object; it has no
  \<open>code\<close> and no \<open>method\<close> property.
\<close>

theorem flattenMethod_empty_response:
  "\<exists>fm. flattenMethod demo_lib demo_plain_method = Inr fm \<and> fm_responses fm = [[]] \<and>
     obj_get (hd (fm_responses fm)) ''code'' = JUndefined \<and>
     obj_get (hd (fm_responses fm)) ''method'' = JUndefined"
  by (simp add: flattenMethod_def makeExamplesOf_def demo_plain_method_def resp_code_def
      obj_get_def)


section \<open>Writes of the parameter reduction\<close>

text \<open>
  The accumulator of the reduction is a new object, and \<open>_.set\<close> writes to it and to
  the objects it creates below it: when no parameter's example is a reference, the
  objects that were in the store before the call are the same after it.
\<close>

lemma map_of_obj_set:
  "map_of (obj_set ob k v) k' = (if k' = k then Some v else map_of ob k')"
  by (induction ob k v rule: obj_set.induct) auto

lemma length_st_put [simp]: "length (st_put st a k v) = length st"
  by (simp add: st_put_def)

lemma take_st_put: "n \<le> a \<Longrightarrow> take n (st_put st a k v) = take n st"
  by (simp add: st_put_def)

lemma nth_st_put:
  "a' < length st \<Longrightarrow>
   st_put st a k v ! a' = (if a' = a then obj_set (st ! a) k v else st ! a')"
  by (simp add: st_put_def nth_list_update)

lemma closed_aboveI:
  "n \<le> length st \<Longrightarrow>
   (\<And>a k b. n \<le> a \<Longrightarrow> a < length st \<Longrightarrow> map_of (st ! a) k = Some (SRef b)
      \<Longrightarrow> n \<le> b \<and> b < length st) \<Longrightarrow>
   closed_above n st"
  unfolding closed_above_def by blast

lemma closed_aboveD:
  "closed_above n st \<Longrightarrow> n \<le> a \<Longrightarrow> a < length st \<Longrightarrow> map_of (st ! a) k = Some (SRef b) \<Longrightarrow>
   n \<le> b \<and> b < length st"
  unfolding closed_above_def by blast

lemma closed_above_le: "closed_above n st \<Longrightarrow> n \<le> length st"
  unfolding closed_above_def by blast

lemma closed_above_put:
  assumes c: "closed_above n st" and a: "n \<le> a" "a < length st"
    and v: "\<And>b. v = SRef b \<Longrightarrow> n \<le> b \<and> b < length st"
  shows "closed_above n (st_put st a k v)"
proof (rule closed_aboveI)
  from c show "n \<le> length (st_put st a k v)"
    by (simp add: closed_above_le)
next
  fix a' k' b
  assume a': "n \<le> a'" "a' < length (st_put st a k v)"
    and m: "map_of (st_put st a k v ! a') k' = Some (SRef b)"
  from a' have l: "a' < length st" by simp
  have "n \<le> b \<and> b < length st"
  proof (cases "a' = a \<and> k' = k")
    case True
    with m l have "v = SRef b"
      by (simp add: nth_st_put map_of_obj_set)
    then show ?thesis by (rule v)
  next
    case False
    with m l have "map_of (st ! a') k' = Some (SRef b)"
      by (simp add: nth_st_put map_of_obj_set split: if_splits)
    with c a'(1) l show ?thesis
      by (rule closed_aboveD)
  qed
  then show "n \<le> b \<and> b < length (st_put st a k v)" by simp
qed

lemma closed_above_new:
  assumes c: "closed_above n st"
  shows "closed_above n (st @ [[]])"
proof (rule closed_aboveI)
  from c show "n \<le> length (st @ [[]])"
    using closed_above_le[OF c] by simp
next
  fix a k b
  assume a: "n \<le> a" "a < length (st @ [[]])"
    and m: "map_of ((st @ [[]]) ! a) k = Some (SRef b)"
  have "a < length st"
  proof (rule ccontr)
    assume "\<not> a < length st"
    with a have "a = length st" by simp
    with m show False by simp
  qed
  moreover from this m have "map_of (st ! a) k = Some (SRef b)"
    by (simp add: nth_append)
  ultimately have "n \<le> b \<and> b < length st"
    using c a(1) by (intro closed_aboveD[of n st a k b])
  then show "n \<le> b \<and> b < length (st @ [[]])" by simp
qed

lemma st_get_closed:
  assumes c: "closed_above n st" and a: "n \<le> a" "a < length st"
    and g: "st_get st (SRef a) k = SRef b"
  shows "n \<le> b \<and> b < length st"
proof -
  from g a have "map_of (st ! a) k = Some (SRef b)"
    by (simp add: st_get_def split: option.splits)
  with c a show ?thesis by (rule closed_aboveD)
qed

lemma set_loop_not_ref:
  "(\<And>a. nested \<noteq> SRef a) \<Longrightarrow> set_loop st nested pth v = st"
  by (induction st nested pth v rule: set_loop.induct) (auto split: sval.splits)

lemma set_loop_frame:
  "closed_above n st \<Longrightarrow> (\<And>a. nested = SRef a \<Longrightarrow> n \<le> a \<and> a < length st) \<Longrightarrow>
   (\<And>b. v \<noteq> SRef b) \<Longrightarrow>
   take n (set_loop st nested pth v) = take n st \<and> closed_above n (set_loop st nested pth v)"
proof (induction st nested pth v rule: set_loop.induct)
  case (1 st nested v)
  then show ?case by simp
next
  case (2 st nested key v)
  show ?case
  proof (cases nested)
    case (SRef a)
    with 2(2) have a: "n \<le> a" "a < length st" by simp_all
    have "closed_above n (st_put st a key v)"
    proof (rule closed_above_put[OF 2(1) a])
      fix b assume "v = SRef b"
      with 2(3) show "n \<le> b \<and> b < length st" by blast
    qed
    with a SRef show ?thesis
      by (simp add: take_st_put)
  qed (simp_all add: 2(1))
next
  case (3 st nested key nxt rest v)
  show ?case
  proof (cases nested)
    case (SRef a)
    with 3(4) have a: "n \<le> a" "a < length st" by simp_all
    from 3(3) have nl: "n \<le> length st" by (simp add: closed_above_def)
    show ?thesis
    proof (cases "isNullish (st_get st nested key)")
      case True
      let ?st' = "st @ [[]]"
      let ?st'' = "st_put ?st' a key (SRef (length st))"
      have c': "closed_above n ?st'"
        using 3(3) by (rule closed_above_new)
      have c: "closed_above n ?st''"
      proof (rule closed_above_put[OF c'])
        show "n \<le> a" by (rule a)
        show "a < length ?st'" using a by simp
        fix b assume "SRef (length st) = SRef b"
        then show "n \<le> b \<and> b < length ?st'" using nl by auto
      qed
      have n: "st_new st = (length st, ?st')" by (simp add: st_new_def)
      have r: "\<And>a'. SRef (length st) = SRef a' \<Longrightarrow> n \<le> a' \<and> a' < length ?st''"
        using nl by auto
      have "take n (set_loop ?st'' (SRef (length st)) (nxt # rest) v) = take n ?st'' \<and>
            closed_above n (set_loop ?st'' (SRef (length st)) (nxt # rest) v)"
        by (rule 3(1)[OF SRef True refl n[symmetric] refl c r 3(5)])
      moreover have "take n ?st'' = take n st"
        using a nl by (simp add: take_st_put)
      ultimately show ?thesis
        using SRef True by (simp add: n)
    next
      case False
      have r: "\<And>a'. st_get st nested key = SRef a' \<Longrightarrow> n \<le> a' \<and> a' < length st"
        using st_get_closed[OF 3(3) a] SRef by blast
      have "take n (set_loop st (st_get st nested key) (nxt # rest) v) = take n st \<and>
            closed_above n (set_loop st (st_get st nested key) (nxt # rest) v)"
        by (rule 3(2)[OF SRef False 3(3) r 3(5)])
      then show ?thesis
        using SRef False by simp
    qed
  qed (simp_all add: 3(3))
qed

lemma length_set_loop: "length st \<le> length (set_loop st nested pth v)"
proof (induction st nested pth v rule: set_loop.induct)
  case (1 st nested v)
  show ?case by simp
next
  case (2 st nested key v)
  show ?case by (cases nested) simp_all
next
  case (3 st nested key nxt rest v)
  show ?case
  proof (cases nested)
    case (SRef a)
    show ?thesis
    proof (cases "isNullish (st_get st nested key)")
      case True
      have n: "st_new st = (length st, st @ [[]])" by (simp add: st_new_def)
      from 3(1)[OF SRef True refl n[symmetric] refl]
      have "length (st @ [[]]) \<le> length (set_loop (st_put (st @ [[]]) a key (SRef (length st)))
              (SRef (length st)) (nxt # rest) v)"
        by simp
      with SRef True show ?thesis by (simp add: n)
    next
      case False
      from 3(2)[OF SRef False] SRef False show ?thesis by simp
    qed
  qed simp_all
qed

lemma sval_of_not_ref: "sval_of x \<noteq> SRef b"
  by (cases x) simp_all

lemma lodash_set_st_frame:
  assumes "closed_above n st" "n \<le> ob" "ob < length st" "\<And>b. v \<noteq> SRef b"
  shows "take n (lodash_set_st st (SRef ob) p v) = take n st \<and>
         closed_above n (lodash_set_st st (SRef ob) p v) \<and>
         length st \<le> length (lodash_set_st st (SRef ob) p v)"
proof -
  have r: "\<And>a. SRef ob = SRef a \<Longrightarrow> n \<le> a \<and> a < length st"
    using assms(2,3) by simp
  obtain pth where p: "lodash_set_st st (SRef ob) p v = set_loop st (SRef ob) pth v"
    by (simp add: lodash_set_st_def isNullish_def)
  from set_loop_frame[OF assms(1) r assms(4), where pth=pth] length_set_loop[of st "SRef ob" pth v]
  show ?thesis
    unfolding p by blast
qed

lemma param_step_st_frame:
  assumes c: "closed_above n st" and ob: "n \<le> ob" "ob < length st"
    and e: "\<And>a. p_example v \<noteq> Some (SRef a)"
    and s: "param_step_st st ob v = Inr st'"
  shows "take n st' = take n st \<and> closed_above n st' \<and> length st \<le> length st'"
proof -
  from s obtain x where x: "st' = lodash_set_st st (SRef ob) (displayName v) x"
    and nr: "\<And>b. x \<noteq> SRef b"
    using e by (auto simp: param_step_st_def sval_of_not_ref split: option.splits sum.splits)
  from lodash_set_st_frame[OF c ob nr] x show ?thesis by simp
qed

lemma reduce_params_st_frame:
  "closed_above n st \<Longrightarrow> n \<le> ob \<Longrightarrow> ob < length st \<Longrightarrow>
   (\<And>v a. v \<in> set ps \<Longrightarrow> p_example v \<noteq> Some (SRef a)) \<Longrightarrow>
   reduce_params_st st ob ps = Inr st' \<Longrightarrow> take n st' = take n st"
proof (induction ps arbitrary: st)
  case Nil
  then show ?case by simp
next
  case (Cons p ps)
  from Cons.prems(5) obtain st1 where p: "param_step_st st ob p = Inr st1"
    and r: "reduce_params_st st1 ob ps = Inr st'"
    by (auto split: sum.splits)
  have e: "\<And>a. p_example p \<noteq> Some (SRef a)"
    using Cons.prems(4) by simp
  from param_step_st_frame[OF Cons.prems(1,2,3) e p]
  have 1: "take n st1 = take n st" "closed_above n st1" "length st \<le> length st1"
    by simp_all
  from 1(3) Cons.prems(3) have l: "ob < length st1" by simp
  have "take n st' = take n st1"
    using Cons.prems(4) by (intro Cons.IH[OF 1(2) Cons.prems(2) l _ r]) simp
  with 1(1) show ?case by simp
qed

lemma makeExamplesOf_st_frame:
  assumes e: "\<And>v a. v \<in> set ps \<Longrightarrow> p_example v \<noteq> Some (SRef a)"
    and m: "makeExamplesOf_st st ps = Inr (st', r)"
  shows "take (length st) st' = st"
proof -
  have c: "closed_above (length st) (st @ [[]])"
    by (rule closed_aboveI) (simp_all add: nth_append)
  from m have "reduce_params_st (st @ [[]]) (length st) ps = Inr st'"
    by (auto simp: makeExamplesOf_st_def st_new_def split: sum.splits)
  from reduce_params_st_frame[OF c _ _ e this] show ?thesis by simp
qed

text \<open>
  C9. The flattener does not leave every input unchanged. When the example of a
  parameter is an object of the document and a later parameter's display name is a path
  through the first one's name, \<open>_.set\<close> follows the property of the accumulator into
  that object and assigns there: the object at address 0, \<open>{name: "x"}\<close> before the
  call, has the property \<open>id\<close> after it.
\<close>

theorem makeExamplesOf_st_writes_input:
  "makeExamplesOf_st demo_store demo_alias_params =
     Inr ([[(''name'', SStr ''x''), (''id'', SNum 1234567890)], [(''user'', SRef 0)]], Some 1) \<and>
   demo_store ! 0 = [(''name'', SStr ''x'')]"
  by (simp add: makeExamplesOf_st_def demo_store_def demo_alias_params_def st_new_def
      param_step_st_def lodash_set_st_def st_get_def st_has_def isNullish_def toPath_def
      st_put_def makeExampleFromType_def)

end
